theory Spec2Isabelle
  imports Main
begin

section \<open>Data model\<close>

text \<open>
  A board cell is a JavaScript value of type \<open>string | null\<close>; reading an array past its
  end yields \<open>undefined\<close>, which is a third value distinct from \<open>null\<close>.
\<close>

datatype jsval = Undefined | Null | Str string

type_synonym board = "jsval list list"

text \<open>A shape as the components receive it: \<open>{ blocks: number[][], color: string }\<close>.\<close>

record shape =
  blocks :: "(int \<times> int) list"
  color :: string

datatype error = TypeError

definition GRID_SIZE :: int where
  "GRID_SIZE = 8"

text \<open>
  \<open>row[j]\<close> for an index \<open>j\<close>: the element when \<open>j\<close> is inside the array,
  \<open>undefined\<close> otherwise.
\<close>

definition rowGet :: "jsval list \<Rightarrow> nat \<Rightarrow> jsval" where
  "rowGet xs j = (if j < length xs then xs ! j else Undefined)"

text \<open>
  \<open>g[i][j]\<close> where the surrounding code has already established that row \<open>i\<close> exists.
\<close>

definition cellAt :: "board \<Rightarrow> nat \<Rightarrow> nat \<Rightarrow> jsval" where
  "cellAt g i j = (if i < length g then rowGet (g ! i) j else Undefined)"

text \<open>
  \<open>row[j] = v\<close> on a JavaScript array: inside the array the element is replaced, at or
  past the end the array grows (the gap reads as \<open>undefined\<close>), and a negative \<open>j\<close>
  sets a named property and leaves the elements alone.
\<close>

definition arraySet :: "jsval list \<Rightarrow> int \<Rightarrow> jsval \<Rightarrow> jsval list" where
  "arraySet xs j v =
     (if 0 \<le> j \<and> j < int (length xs) then xs[nat j := v]
      else if int (length xs) \<le> j then xs @ replicate (nat j - length xs) Undefined @ [v]
      else xs)"

section \<open>Turn scoring (handlePlaceShape, the score computation)\<close>

text \<open>
  Lines 104-137 of handlePlaceShape as a function of the block count of the shape, the
  number of cleared lines and the streak before the turn. JavaScript numbers are IEEE
  doubles: their arithmetic on integers is exact while every operand and result stays
  below \<open>2^53\<close> in magnitude, and rounds beyond that. The definition computes over
  \<open>int\<close>, so it is the code's result wherever all the values of the computation stay
  below \<open>2^53\<close>; \<open>turnScore_within_doubles\<close> gives such a range.
\<close>

record turn =
  placementPoints :: int
  linePoints :: int
  newStreak :: int
  totalPointsScored :: int

definition turnScore :: "int \<Rightarrow> int \<Rightarrow> int \<Rightarrow> turn" where
  "turnScore blockCount clearedLines streak =
     (let placementPoints = blockCount * 10;
          (linePoints, newStreak) =
            (if clearedLines > 0 then
               (let newStreak = streak + 1;
                    streakBonus = (newStreak - 1) * 10
                in (clearedLines * (100 + streakBonus), newStreak))
             else (0, 0))
      in \<lparr> placementPoints = placementPoints, linePoints = linePoints,
           newStreak = newStreak, totalPointsScored = placementPoints + linePoints \<rparr>)"

section \<open>Hover preview (GameBoard, first effect)\<close>

text \<open>
  One iteration of \<open>selectedShape.blocks.forEach\<close>. The loop state is the flag
  \<open>canPlace\<close> and the preview grid, which is a row-by-row copy of the board.
\<close>

definition previewStep ::
  "board \<Rightarrow> shape \<Rightarrow> int \<Rightarrow> int \<Rightarrow> int \<times> int \<Rightarrow> bool \<times> board \<Rightarrow> bool \<times> board" where
  "previewStep g sh hoverRow hoverCol b st =
     (case b of (r, c) \<Rightarrow> case st of (canPlace, newPreviewGrid) \<Rightarrow>
        let newRow = hoverRow + r; newCol = hoverCol + c in
        if newRow \<ge> 0 \<and> newRow < int (length g) \<and> newCol \<ge> 0 \<and> newCol < int (length (g ! 0)) then
          let canPlace' = (if cellAt g (nat newRow) (nat newCol) \<noteq> Null then False else canPlace)
          in (canPlace',
              newPreviewGrid[nat newRow :=
                arraySet (newPreviewGrid ! nat newRow) newCol
                  (Str (if canPlace' then color sh @ ''-preview'' else ''invalid''))])
        else (False, newPreviewGrid))"

definition hoverPreview :: "board \<Rightarrow> shape \<Rightarrow> int \<Rightarrow> int \<Rightarrow> bool \<times> board" where
  "hoverPreview g sh hoverRow hoverCol =
     fold (previewStep g sh hoverRow hoverCol) (blocks sh) (True, map (\<lambda>rw. rw) g)"

text \<open>\<open>Array(GRID_SIZE).fill(null).map(() => Array(GRID_SIZE).fill(null))\<close>, as a value.\<close>

definition emptyBoard :: board where
  "emptyBoard = replicate 8 (replicate 8 Null)"

section \<open>Flashing cells of completed lines (GameBoard, second effect)\<close>

text \<open>An element of \<open>newFlashingCells\<close>: \<open>{row, col}\<close>.\<close>

record cellPos =
  row :: nat
  col :: nat

text \<open>\<open>grid[row].every(cell => cell !== null)\<close>\<close>

definition isRowFull :: "board \<Rightarrow> nat \<Rightarrow> bool" where
  "isRowFull g r = list_all (\<lambda>cell. cell \<noteq> Null) (g ! r)"

text \<open>
  \<open>Array.from({length: gridSize}, (_, row) => grid[row][col]).every(cell => cell !== null)\<close>;
  a row shorter than \<open>col\<close> reads as \<open>undefined\<close>, which is not \<open>null\<close>.
\<close>

definition isColFull :: "board \<Rightarrow> nat \<Rightarrow> bool" where
  "isColFull g c =
     list_all (\<lambda>cell. cell \<noteq> Null) (map (\<lambda>r. rowGet (g ! r) c) [0..<length g])"

text \<open>The inner loop of the row pass: every cell of a full row is pushed.\<close>

definition pushRowCells :: "nat \<Rightarrow> nat \<Rightarrow> cellPos list \<Rightarrow> cellPos list" where
  "pushRowCells gridSize r newFlashingCells =
     fold (\<lambda>c acc. acc @ [\<lparr> row = r, col = c \<rparr>]) [0..<gridSize] newFlashingCells"

text \<open>The inner loop of the column pass: a cell is pushed unless \<open>some\<close> finds it already.\<close>

definition pushColCells :: "nat \<Rightarrow> nat \<Rightarrow> cellPos list \<Rightarrow> cellPos list" where
  "pushColCells gridSize c newFlashingCells =
     fold (\<lambda>r acc.
             if \<not> list_ex (\<lambda>cell. row cell = r \<and> col cell = c) acc
             then acc @ [\<lparr> row = r, col = c \<rparr>] else acc)
          [0..<gridSize] newFlashingCells"

definition flashingCells :: "board \<Rightarrow> cellPos list" where
  "flashingCells g =
     (let gridSize = length g;
          afterRows = fold (\<lambda>r acc. if isRowFull g r then pushRowCells gridSize r acc else acc)
                        [0..<gridSize] []
      in fold (\<lambda>c acc. if isColFull g c then pushColCells gridSize c acc else acc)
           [0..<gridSize] afterRows)"

text \<open>The two outer loops after \<open>k\<close> iterations, for the proofs by induction on \<open>k\<close>.\<close>

definition rowPass :: "board \<Rightarrow> nat \<Rightarrow> nat \<Rightarrow> cellPos list" where
  "rowPass g n k = fold (\<lambda>r acc. if isRowFull g r then pushRowCells n r acc else acc) [0..<k] []"

definition colPass :: "board \<Rightarrow> nat \<Rightarrow> nat \<Rightarrow> cellPos list \<Rightarrow> cellPos list" where
  "colPass g n k acc = fold (\<lambda>c acc. if isColFull g c then pushColCells n c acc else acc) [0..<k] acc"

text \<open>A board whose row 0 and column 0 are full and whose other cells are empty.\<close>

definition crossBoard :: board where
  "crossBoard = replicate 8 (Str ''red'') # replicate 7 (Str ''red'' # replicate 7 Null)"

section \<open>Helpers imported by App from utils/gameLogic and utils/shapeGenerator\<close>

text \<open>
  Modelled from the spec: \<open>checkPlacement\<close> of utils/gameLogic is not among the sources.
  The spec's contract (4.2): for every offset \<open>(dr, dc)\<close> of the shape the target cell
  \<open>(anchorRow + dr, anchorCol + dc)\<close> must satisfy \<open>0 \<le> row < 8\<close>, \<open>0 \<le> col < 8\<close> and
  the board cell there must be empty.
\<close>

definition checkPlacement :: "board \<Rightarrow> shape \<Rightarrow> int \<Rightarrow> int \<Rightarrow> bool" where
  "checkPlacement g sh anchorRow anchorCol =
     list_all (\<lambda>(dr, dc).
        let r = anchorRow + dr; c = anchorCol + dc in
        0 \<le> r \<and> r < 8 \<and> 0 \<le> c \<and> c < 8 \<and> cellAt g (nat r) (nat c) = Null) (blocks sh)"

text \<open>
  Modelled from the spec: \<open>clearLines\<close> of utils/gameLogic is not among the sources.
  The spec's contract (4.3): a row or column is complete iff each of its 8 cells is
  non-empty; every cell of a complete row or column is empty in the output board; the
  count is the number of complete rows plus the number of complete columns.
\<close>

record cleared =
  updatedGrid :: board
  clearedLines :: int
  clearedPositions :: "(nat \<times> nat) list"

definition rowComplete :: "board \<Rightarrow> nat \<Rightarrow> bool" where
  "rowComplete g r = list_all (\<lambda>c. cellAt g r c \<noteq> Null) [0..<8]"

definition colComplete :: "board \<Rightarrow> nat \<Rightarrow> bool" where
  "colComplete g c = list_all (\<lambda>r. cellAt g r c \<noteq> Null) [0..<8]"

definition clearLines :: "board \<Rightarrow> cleared" where
  "clearLines g =
     \<lparr> updatedGrid =
         map (\<lambda>r. map (\<lambda>c. if rowComplete g r \<or> colComplete g c then Null else cellAt g r c)
                    [0..<8]) [0..<8],
       clearedLines =
         int (length (filter (rowComplete g) [0..<8]) + length (filter (colComplete g) [0..<8])),
       clearedPositions =
         filter (\<lambda>(r, c). rowComplete g r \<or> colComplete g c) (List.product [0..<8] [0..<8]) \<rparr>"

text \<open>
  Modelled from the spec: \<open>checkGameOver\<close> of utils/gameLogic is not among the sources.
  The spec's contract (4.5): true iff for every piece and every anchor of the 8 x 8 grid
  the placement is rejected.
\<close>

definition checkGameOver :: "board \<Rightarrow> shape list \<Rightarrow> bool" where
  "checkGameOver g pieces =
     list_all (\<lambda>p. list_all (\<lambda>r. list_all (\<lambda>c. \<not> checkPlacement g p (int r) (int c)) [0..<8])
                       [0..<8]) pieces"

text \<open>
  Modelled from the spec: \<open>generateShapes\<close> of utils/shapeGenerator is not among the
  sources. The spec's contract (4.1): \<open>count\<close> shapes, each drawn independently. The
  random source is the parameter \<open>draw\<close>: \<open>draw k\<close> is the shape of the \<open>k\<close>-th draw of
  this call.
\<close>

definition generateShapes :: "(nat \<Rightarrow> shape) \<Rightarrow> nat \<Rightarrow> shape list" where
  "generateShapes draw count = map draw [0..<count]"

section \<open>The game state of App and its handlers\<close>

text \<open>The \<open>useState\<close> cells of App that carry the game (not the modal and animation flags).\<close>

record game =
  score :: int
  highScore :: int
  grid :: board
  availableShapes :: "shape list"
  selectedShape :: "nat option"
  gameOver :: bool
  streak :: int

text \<open>
  The placement loop of handlePlaceShape on the value of the new grid. \<open>newGrid[newRow]\<close>
  of a row that does not exist is \<open>undefined\<close>, and assigning into it throws.
\<close>

fun placeBlocks :: "string \<Rightarrow> int \<Rightarrow> int \<Rightarrow> (int \<times> int) list \<Rightarrow> board \<Rightarrow> error + board" where
  "placeBlocks tag rowIndex colIndex [] newGrid = Inr newGrid"
| "placeBlocks tag rowIndex colIndex ((r, c) # bs) newGrid =
     (let newRow = rowIndex + r; newCol = colIndex + c in
      if newRow \<ge> 0 \<and> newRow < GRID_SIZE \<and> newCol \<ge> 0 \<and> newCol < GRID_SIZE then
        (if nat newRow < length newGrid
         then placeBlocks tag rowIndex colIndex bs
                (newGrid[nat newRow := arraySet (newGrid ! nat newRow) newCol (Str tag)])
         else Inl TypeError)
      else placeBlocks tag rowIndex colIndex bs newGrid)"

text \<open>\<open>xs.splice(i, 1)\<close> for a non-negative \<open>i\<close>: past the end nothing is removed.\<close>

definition spliceOne :: "'a list \<Rightarrow> nat \<Rightarrow> 'a list" where
  "spliceOne xs i = take i xs @ drop (Suc i) xs"

text \<open>
  handlePlaceShape, as the state it leaves in the \<open>useState\<close> cells. The new value of
  the cell \<open>grid\<close> is what \<open>clearLines\<close> returns for the board read through
  \<open>newGrid\<close> after the placement loop; what the loop does to the arrays of the old
  grid is the subject of the heap model further down, and \<open>placeLoop_placeBlocks\<close>
  relates the two. With a selection index that no longer names a piece,
  \<open>availableShapes[selectedShape]\<close> is \<open>undefined\<close> and reading its blocks throws; an
  exception leaves every state cell as it was.
\<close>

definition handlePlaceShape :: "(nat \<Rightarrow> shape) \<Rightarrow> int \<Rightarrow> int \<Rightarrow> game \<Rightarrow> error + game" where
  "handlePlaceShape draw rowIndex colIndex s =
     (case selectedShape s of
        None \<Rightarrow> Inr s
      | Some sel \<Rightarrow>
          if gameOver s then Inr s
          else if length (availableShapes s) \<le> sel then Inl TypeError
          else
            let sh = availableShapes s ! sel in
            if checkPlacement (grid s) sh rowIndex colIndex then
              (case placeBlocks (color sh) rowIndex colIndex (blocks sh) (grid s) of
                 Inl e \<Rightarrow> Inl e
               | Inr newGrid \<Rightarrow>
                   let blockCount = int (length (blocks sh));
                       cl = clearLines newGrid;
                       t = turnScore blockCount (clearedLines cl) (streak s);
                       newAvailableShapes = spliceOne (availableShapes s) sel
                   in Inr (s\<lparr> grid := updatedGrid cl,
                              score := score s + totalPointsScored t,
                              streak := newStreak t,
                              availableShapes :=
                                (if length newAvailableShapes = 0 then generateShapes draw 3
                                 else newAvailableShapes),
                              selectedShape := None \<rparr>))
            else Inr s)"

text \<open>The effect "Check for game over".\<close>

definition gameOverEffect :: "game \<Rightarrow> game" where
  "gameOverEffect s =
     (if length (availableShapes s) > 0 \<and> \<not> gameOver s then
        (if checkGameOver (grid s) (availableShapes s) then
           s\<lparr> gameOver := True,
              highScore := (if score s > highScore s then score s else highScore s) \<rparr>
         else s)
      else s)"

definition resetGame :: "(nat \<Rightarrow> shape) \<Rightarrow> game \<Rightarrow> game" where
  "resetGame draw s =
     s\<lparr> grid := emptyBoard, score := 0, streak := 0,
        availableShapes := generateShapes draw 3, selectedShape := None, gameOver := False \<rparr>"

definition handleShapeSelect :: "nat \<Rightarrow> game \<Rightarrow> game" where
  "handleShapeSelect index s = s\<lparr> selectedShape := Some index \<rparr>"

definition clearHighScore :: "game \<Rightarrow> game" where
  "clearHighScore s = s\<lparr> highScore := 0 \<rparr>"

text \<open>
  The state App starts from: the initial \<open>useState\<close> values, with the high score read
  from the cookie when there is one.
\<close>

definition initialGame :: "(nat \<Rightarrow> shape) \<Rightarrow> int option \<Rightarrow> game" where
  "initialGame draw savedHighScore =
     \<lparr> score = 0,
       highScore = (case savedHighScore of None \<Rightarrow> 0 | Some v \<Rightarrow> v),
       grid = emptyBoard,
       availableShapes = generateShapes draw 3,
       selectedShape = None,
       gameOver = False,
       streak = 0 \<rparr>"

text \<open>
  What the player can do, each with the random draws its handler consumes. After the
  handler the game-over effect runs on the new state; running it again changes nothing.
\<close>

datatype event =
    SelectShape nat
  | PlaceShape int int "nat \<Rightarrow> shape"
  | ResetGame "nat \<Rightarrow> shape"
  | ClearHighScore

fun handleEvent :: "event \<Rightarrow> game \<Rightarrow> game" where
  "handleEvent (SelectShape i) s = handleShapeSelect i s"
| "handleEvent (PlaceShape r c d) s = (case handlePlaceShape d r c s of Inl e \<Rightarrow> s | Inr s' \<Rightarrow> s')"
| "handleEvent (ResetGame d) s = resetGame d s"
| "handleEvent ClearHighScore s = clearHighScore s"

definition step :: "event \<Rightarrow> game \<Rightarrow> game" where
  "step e s = gameOverEffect (handleEvent e s)"

definition run :: "event list \<Rightarrow> game \<Rightarrow> game" where
  "run es s = fold step es s"

fun isReset :: "event \<Rightarrow> bool" where
  "isReset (ResetGame d) = True"
| "isReset e = False"

text \<open>A one-block piece and a three-piece batch of it, for concrete runs.\<close>

definition dot :: shape where
  "dot = \<lparr> blocks = [(0, 0)], color = ''red'' \<rparr>"

definition dots :: "nat \<Rightarrow> shape" where
  "dots k = dot"

text \<open>Concrete states for running the handlers.\<close>

definition startGame :: game where
  "startGame = initialGame dots None"

definition occupiedGame :: game where
  "occupiedGame =
     \<lparr> score = 10, highScore = 0,
       grid = (Str ''red'' # replicate 7 Null) # replicate 7 (replicate 8 Null),
       availableShapes = [dot, dot], selectedShape = Some 0, gameOver = False, streak = 0 \<rparr>"

definition domino :: shape where
  "domino = \<lparr> blocks = [(0, 0), (0, 1)], color = ''blue'' \<rparr>"

definition dominoes :: "nat \<Rightarrow> shape" where
  "dominoes k = domino"

definition checkerBoard :: board where
  "checkerBoard = map (\<lambda>r. map (\<lambda>c. if odd (r + c) then Str ''blue'' else Null) [0..<8]) [0..<8]"

definition lastPieceGame :: game where
  "lastPieceGame =
     \<lparr> score = 50, highScore = 20, grid = checkerBoard,
       availableShapes = [dot], selectedShape = Some 0, gameOver = False, streak = 0 \<rparr>"

section \<open>The placement loop of handlePlaceShape on the heap\<close>

text \<open>
  JavaScript arrays are objects, and a grid is an array of references to its row arrays.
  The heap keeps the outer arrays and the row arrays under their addresses; \<open>fresh\<close> is
  the next unused address for an outer array.
\<close>

record heap =
  gridStore :: "nat \<Rightarrow> nat list"
  rowStore :: "nat \<Rightarrow> jsval list"
  fresh :: nat

text \<open>The cells of the grid at address \<open>g\<close>, read through its row references.\<close>

definition readBoard :: "heap \<Rightarrow> nat \<Rightarrow> board" where
  "readBoard h g = map (rowStore h) (gridStore h g)"

text \<open>
  \<open>[...grid]\<close>: a new outer array that holds the same row references as \<open>grid\<close>.
\<close>

definition spread :: "heap \<Rightarrow> nat \<Rightarrow> heap \<times> nat" where
  "spread h g =
     (h\<lparr> gridStore := (gridStore h)(fresh h := gridStore h g), fresh := Suc (fresh h) \<rparr>,
      fresh h)"

text \<open>
  \<open>newGrid[i][j] = v\<close>: the row reference is read from the outer array (a missing row is
  \<open>undefined\<close>, and assigning into it throws), and the row array it names is updated
  in place.
\<close>

definition assignCell :: "heap \<Rightarrow> nat \<Rightarrow> int \<Rightarrow> int \<Rightarrow> jsval \<Rightarrow> error + heap" where
  "assignCell h g i j v =
     (if 0 \<le> i \<and> i < int (length (gridStore h g)) then
        (let a = gridStore h g ! nat i
         in Inr (h\<lparr> rowStore := (rowStore h)(a := arraySet (rowStore h a) j v) \<rparr>))
      else Inl TypeError)"

text \<open>
  The \<open>forEach\<close> of lines 95-101. Besides the heap the loop state carries the list of
  the index pairs it has assigned to, in order.
\<close>

fun placeLoop ::
  "nat \<Rightarrow> string \<Rightarrow> int \<Rightarrow> int \<Rightarrow> (int \<times> int) list \<Rightarrow> heap \<times> (int \<times> int) list
     \<Rightarrow> error + heap \<times> (int \<times> int) list" where
  "placeLoop newGrid tag rowIndex colIndex [] st = Inr st"
| "placeLoop newGrid tag rowIndex colIndex ((r, c) # bs) (h, written) =
     (let newRow = rowIndex + r; newCol = colIndex + c in
      if newRow \<ge> 0 \<and> newRow < GRID_SIZE \<and> newCol \<ge> 0 \<and> newCol < GRID_SIZE then
        (case assignCell h newGrid newRow newCol (Str tag) of
           Inl e \<Rightarrow> Inl e
         | Inr h' \<Rightarrow>
             placeLoop newGrid tag rowIndex colIndex bs (h', written @ [(newRow, newCol)]))
      else placeLoop newGrid tag rowIndex colIndex bs (h, written))"

text \<open>
  Lines 94-101: the copy and the loop. The result is the heap afterwards, the address of
  \<open>newGrid\<close> and the assignments made.
\<close>

definition placeOnHeap ::
  "heap \<Rightarrow> nat \<Rightarrow> shape \<Rightarrow> int \<Rightarrow> int \<Rightarrow> error + heap \<times> nat \<times> (int \<times> int) list" where
  "placeOnHeap h g sh rowIndex colIndex =
     (case spread h g of
        (h1, newGrid) \<Rightarrow>
          (case placeLoop newGrid (color sh) rowIndex colIndex (blocks sh) (h1, []) of
             Inl e \<Rightarrow> Inl e
           | Inr (h2, written) \<Rightarrow> Inr (h2, newGrid, written)))"

text \<open>
  The heap after \<open>Array(8).fill(null).map(() => Array(8).fill(null))\<close>: the grid at
  address 0 has eight row arrays of its own, at the row addresses 0 to 7, all cells
  \<open>null\<close>.
\<close>

definition emptyHeap :: heap where
  "emptyHeap =
     \<lparr> gridStore = (\<lambda>a. [])(0 := [0, 1, 2, 3, 4, 5, 6, 7]),
       rowStore = (\<lambda>a. replicate 8 Null),
       fresh = 1 \<rparr>"

section \<open>Theorems\<close>

lemma previewStep_flag:
  "fst (previewStep g sh hr hc b (cp, pv)) =
     (cp \<and> (case b of (r, c) \<Rightarrow>
        0 \<le> hr + r \<and> hr + r < int (length g) \<and> 0 \<le> hc + c \<and> hc + c < int (length (g ! 0))
        \<and> cellAt g (nat (hr + r)) (nat (hc + c)) = Null))"
  by (auto simp: previewStep_def Let_def split: prod.splits)

lemma preview_fold_flag:
  "fst (fold (previewStep g sh hr hc) bs st) =
     (fst st \<and> (\<forall>(r, c) \<in> set bs.
        0 \<le> hr + r \<and> hr + r < int (length g) \<and> 0 \<le> hc + c \<and> hc + c < int (length (g ! 0))
        \<and> cellAt g (nat (hr + r)) (nat (hc + c)) = Null))"
proof (induction bs arbitrary: st)
  case Nil
  show ?case by simp
next
  case (Cons b bs)
  obtain cp pv where st: "st = (cp, pv)" by (cases st)
  show ?case
    unfolding fold_simps Cons.IH st previewStep_flag
    by (auto split: prod.splits)
qed

text \<open>
  For block counts below \<open>2^32\<close>, at most 16 cleared lines and streaks below \<open>2^40\<close>,
  every value the score computation produces is a non-negative integer below \<open>2^53\<close>,
  where the doubles of the code compute exactly.
\<close>

lemma turnScore_within_doubles:
  fixes b c s :: int
  assumes "0 \<le> b" and "b < 2 ^ 32" and "0 \<le> c" and "c \<le> 16" and "0 \<le> s" and "s < 2 ^ 40"
  shows "0 \<le> b * 10 \<and> b * 10 < 2 ^ 53"
    and "0 \<le> s + 1 \<and> s + 1 < 2 ^ 53"
    and "0 \<le> (s + 1 - 1) * 10 \<and> (s + 1 - 1) * 10 < 2 ^ 53"
    and "0 \<le> 100 + (s + 1 - 1) * 10 \<and> 100 + (s + 1 - 1) * 10 < 2 ^ 53"
    and "0 \<le> c * (100 + (s + 1 - 1) * 10) \<and> c * (100 + (s + 1 - 1) * 10) < 2 ^ 53"
    and "0 \<le> b * 10 + c * (100 + (s + 1 - 1) * 10)
         \<and> b * 10 + c * (100 + (s + 1 - 1) * 10) < 2 ^ 53"
proof -
  have lo: "0 \<le> c * (100 + (s + 1 - 1) * 10)"
    using assms(3,5) by (intro mult_nonneg_nonneg) auto
  have "c * (100 + (s + 1 - 1) * 10) \<le> 16 * (100 + (s + 1 - 1) * 10)"
    using assms(4,5) by (intro mult_right_mono) auto
  then have hi: "c * (100 + (s + 1 - 1) * 10) < 2 ^ 49"
    using assms(6) by simp
  show "0 \<le> b * 10 \<and> b * 10 < 2 ^ 53" using assms(1,2) by simp
  show "0 \<le> s + 1 \<and> s + 1 < 2 ^ 53" using assms(5,6) by simp
  show "0 \<le> (s + 1 - 1) * 10 \<and> (s + 1 - 1) * 10 < 2 ^ 53" using assms(5,6) by simp
  show "0 \<le> 100 + (s + 1 - 1) * 10 \<and> 100 + (s + 1 - 1) * 10 < 2 ^ 53"
    using assms(5,6) by simp
  show "0 \<le> c * (100 + (s + 1 - 1) * 10) \<and> c * (100 + (s + 1 - 1) * 10) < 2 ^ 53"
    using lo hi by simp
  show "0 \<le> b * 10 + c * (100 + (s + 1 - 1) * 10)
        \<and> b * 10 + c * (100 + (s + 1 - 1) * 10) < 2 ^ 53"
    using lo hi assms(1,2) by simp
qed

text \<open>
  C2. The turn score, for every block count \<open>0 \<le> b < 2^32\<close>, cleared-line count
  \<open>0 \<le> c \<le> 16\<close> and previous streak \<open>0 \<le> s < 2^40\<close> (where the code's doubles
  compute exactly): placement points are \<open>b * 10\<close> whatever was cleared; with \<open>c > 0\<close>
  the streak becomes \<open>s + 1\<close> and the line points are \<open>c * (100 + (newStreak - 1) * 10)\<close>;
  with \<open>c = 0\<close> both the streak and the line points are 0; the total is the sum of
  placement points and line points.
\<close>

theorem C2_turn_score:
  assumes "0 \<le> b" and "b < 2 ^ 32" and "0 \<le> c" and "c \<le> 16" and "0 \<le> s" and "s < 2 ^ 40"
  shows "placementPoints (turnScore b c s) = b * 10
   \<and> (c > 0 \<longrightarrow> newStreak (turnScore b c s) = s + 1
        \<and> linePoints (turnScore b c s) = c * (100 + (newStreak (turnScore b c s) - 1) * 10))
   \<and> (c = 0 \<longrightarrow> newStreak (turnScore b c s) = 0 \<and> linePoints (turnScore b c s) = 0)
   \<and> totalPointsScored (turnScore b c s)
       = placementPoints (turnScore b c s) + linePoints (turnScore b c s)"
  by (simp add: turnScore_def Let_def)

theorem C2_turn_score_witness:
  "(0::int) \<le> 4 \<and> (4::int) < 2 ^ 32 \<and> (0::int) \<le> 1 \<and> (1::int) \<le> 16
   \<and> (0::int) \<le> 2 \<and> (2::int) < 2 ^ 40
   \<and> placementPoints (turnScore 4 1 2) = 40
   \<and> newStreak (turnScore 4 1 2) = 3
   \<and> linePoints (turnScore 4 1 2) = 120
   \<and> totalPointsScored (turnScore 4 1 2) = 160
   \<and> newStreak (turnScore 4 0 2) = 0 \<and> linePoints (turnScore 4 0 2) = 0
   \<and> totalPointsScored (turnScore 4 0 2) = 40"
proof -
  have r: "(0::int) \<le> 4" "(4::int) < 2 ^ 32" "(0::int) \<le> 1" "(1::int) \<le> 16"
    "(0::int) \<le> 2" "(2::int) < 2 ^ 40" "(0::int) \<le> 0" "(0::int) \<le> 16"
    by simp_all
  show ?thesis
    using C2_turn_score [OF r(1,2,3,4,5,6)] C2_turn_score [OF r(1,2,7,8,5,6)] by simp
qed

text \<open>
  C3. On an 8 x 8 board the hover computation ends with \<open>canPlace\<close> true exactly when
  every target cell \<open>(anchorRow + dr, anchorCol + dc)\<close> lies inside the grid and is empty.
\<close>

theorem C3_canPlace_iff:
  assumes "length g = 8" and "\<forall>rw \<in> set g. length rw = 8"
  shows "fst (hoverPreview g sh anchorRow anchorCol) \<longleftrightarrow>
           (\<forall>(dr, dc) \<in> set (blocks sh).
              0 \<le> anchorRow + dr \<and> anchorRow + dr < 8 \<and> 0 \<le> anchorCol + dc \<and> anchorCol + dc < 8
              \<and> g ! nat (anchorRow + dr) ! nat (anchorCol + dc) = Null)"
proof -
  have len0: "length (g ! 0) = 8" using assms by simp
  have cell: "cellAt g (nat i) (nat j) = g ! nat i ! nat j"
    if "0 \<le> i" "i < 8" "0 \<le> j" "j < 8" for i j :: int
  proof -
    have i: "nat i < length g" using that assms(1) by linarith
    then have "length (g ! nat i) = 8" using assms(2) by simp
    moreover have "nat j < 8" using that by linarith
    ultimately show ?thesis using i by (simp only: cellAt_def rowGet_def if_True)
  qed
  have blk: "(0 \<le> anchorRow + dr \<and> anchorRow + dr < int 8 \<and> 0 \<le> anchorCol + dc
               \<and> anchorCol + dc < int 8
               \<and> cellAt g (nat (anchorRow + dr)) (nat (anchorCol + dc)) = Null)
             = (0 \<le> anchorRow + dr \<and> anchorRow + dr < 8 \<and> 0 \<le> anchorCol + dc
               \<and> anchorCol + dc < 8
               \<and> g ! nat (anchorRow + dr) ! nat (anchorCol + dc) = Null)" for dr dc
    using cell [of "anchorRow + dr" "anchorCol + dc"] by auto
  show ?thesis
    unfolding hoverPreview_def preview_fold_flag len0 assms(1) blk
    by simp
qed

theorem C3_canPlace_iff_witness:
  "length emptyBoard = 8 \<and> list_all (\<lambda>rw. length rw = 8) emptyBoard
   \<and> fst (hoverPreview emptyBoard \<lparr> blocks = [(0, 0), (0, 1)], color = ''red'' \<rparr> 0 0)
   \<and> \<not> fst (hoverPreview emptyBoard \<lparr> blocks = [(0, 0), (0, 1)], color = ''red'' \<rparr> 0 7)"
proof -
  have a: "length emptyBoard = 8" by (simp add: emptyBoard_def)
  have b: "\<forall>rw \<in> set emptyBoard. length rw = 8" by (simp add: emptyBoard_def)
  have c: "\<And>i j. i < 8 \<Longrightarrow> j < 8 \<Longrightarrow> emptyBoard ! i ! j = Null" by (simp add: emptyBoard_def)
  show ?thesis
    using a b [folded list_all_iff] C3_canPlace_iff [OF a b, of "\<lparr> blocks = [(0, 0), (0, 1)], color = ''red'' \<rparr>" 0 0]
      C3_canPlace_iff [OF a b, of "\<lparr> blocks = [(0, 0), (0, 1)], color = ''red'' \<rparr>" 0 7]
    by (simp add: c)
qed

lemma pushRowCells_eq:
  "pushRowCells n r acc = acc @ map (\<lambda>c. \<lparr> row = r, col = c \<rparr>) [0..<n]"
  unfolding pushRowCells_def by (induction n) simp_all

lemma list_ex_pos:
  "list_ex (\<lambda>cell. row cell = r \<and> col cell = c) acc \<longleftrightarrow> \<lparr> row = r, col = c \<rparr> \<in> set acc"
proof -
  have "(row cell = r \<and> col cell = c) = (cell = \<lparr> row = r, col = c \<rparr>)" for cell :: cellPos
    by (cases cell) auto
  then show ?thesis by (simp add: list_ex_iff)
qed

lemma pushColCells_set:
  "set (pushColCells n c acc) = set acc \<union> {\<lparr> row = r, col = c \<rparr> | r. r < n}"
  unfolding pushColCells_def
  by (induction n) (auto simp: list_ex_pos less_Suc_eq)

lemma pushColCells_distinct:
  "distinct acc \<Longrightarrow> distinct (pushColCells n c acc)"
  unfolding pushColCells_def
  by (induction n) (auto simp: list_ex_pos)

lemma rowPass_set:
  "set (rowPass g n k) = {\<lparr> row = r, col = c \<rparr> | r c. r < k \<and> c < n \<and> isRowFull g r}"
  unfolding rowPass_def
  by (induction k) (auto simp: pushRowCells_eq less_Suc_eq)

lemma rowPass_distinct: "distinct (rowPass g n k)"
proof (induction k)
  case 0
  show ?case by (simp add: rowPass_def)
next
  case (Suc k)
  have inj: "inj_on (\<lambda>c. \<lparr> row = k, col = c \<rparr>) (set [0..<n])"
    by (simp add: inj_on_def)
  have "distinct (rowPass g n k @ map (\<lambda>c. \<lparr> row = k, col = c \<rparr>) [0..<n])"
    using Suc inj by (auto simp: distinct_map rowPass_set)
  then show ?case
    using Suc by (simp add: rowPass_def pushRowCells_eq)
qed

lemma colPass_set:
  "set (colPass g n k acc) = set acc \<union> {\<lparr> row = r, col = c \<rparr> | r c. c < k \<and> r < n \<and> isColFull g c}"
  unfolding colPass_def
  by (induction k) (auto simp: pushColCells_set less_Suc_eq)

lemma colPass_distinct: "distinct acc \<Longrightarrow> distinct (colPass g n k acc)"
  unfolding colPass_def
  by (induction k) (auto simp: pushColCells_distinct)

lemma flashingCells_passes:
  "flashingCells g = colPass g (length g) (length g) (rowPass g (length g) (length g))"
  by (simp add: flashingCells_def colPass_def rowPass_def Let_def)

lemma isRowFull_8:
  assumes "r < length g" "length (g ! r) = n"
  shows "isRowFull g r \<longleftrightarrow> (\<forall>c<n. g ! r ! c \<noteq> Null)"
  using assms by (auto simp: isRowFull_def list_all_length)

lemma isColFull_8:
  assumes "\<forall>r<length g. c < length (g ! r)"
  shows "isColFull g c \<longleftrightarrow> (\<forall>r<length g. g ! r ! c \<noteq> Null)"
  using assms by (auto simp: isColFull_def list_all_iff rowGet_def)

lemma count_list_distinct: "distinct xs \<Longrightarrow> x \<in> set xs \<Longrightarrow> count_list xs x = 1"
  by (induction xs) auto

text \<open>
  C6. On an 8 x 8 board the positions collected for completed lines contain no position
  twice, and they are exactly the cells of the complete rows and of the complete columns;
  so a cell where a complete row meets a complete column is there exactly once.
\<close>

theorem C6_flashing_cells:
  assumes "length g = 8" and "\<forall>rw \<in> set g. length rw = 8"
  shows "distinct (flashingCells g)
         \<and> set (flashingCells g) =
             {\<lparr> row = r, col = c \<rparr> | r c. r < 8 \<and> c < 8
                \<and> ((\<forall>c'<8. g ! r ! c' \<noteq> Null) \<or> (\<forall>r'<8. g ! r' ! c \<noteq> Null))}
         \<and> (\<forall>p \<in> set (flashingCells g). count_list (flashingCells g) p = 1)"
proof -
  have len: "length (g ! r) = 8" if "r < 8" for r using assms that by simp
  have rf: "isRowFull g r \<longleftrightarrow> (\<forall>c<8. g ! r ! c \<noteq> Null)" if "r < 8" for r
    using isRowFull_8 [of r g 8] that len assms(1) by simp
  have cf: "isColFull g c \<longleftrightarrow> (\<forall>r<8. g ! r ! c \<noteq> Null)" if "c < 8" for c
    using isColFull_8 [of g c] that len assms(1) by simp
  have d: "distinct (flashingCells g)"
    by (simp add: flashingCells_passes colPass_distinct rowPass_distinct)
  have s: "set (flashingCells g) =
             {\<lparr> row = r, col = c \<rparr> | r c. r < 8 \<and> c < 8
                \<and> ((\<forall>c'<8. g ! r ! c' \<noteq> Null) \<or> (\<forall>r'<8. g ! r' ! c \<noteq> Null))}"
    unfolding flashingCells_passes colPass_set rowPass_set assms(1)
    using rf cf by blast
  have "\<forall>p \<in> set (flashingCells g). count_list (flashingCells g) p = 1"
    using d by (simp add: count_list_distinct)
  with d s show ?thesis by blast
qed

theorem C6_flashing_cells_witness:
  "length crossBoard = 8 \<and> list_all (\<lambda>rw. length rw = 8) crossBoard
   \<and> distinct (flashingCells crossBoard)
   \<and> \<lparr> row = 0, col = 0 \<rparr> \<in> set (flashingCells crossBoard)
   \<and> count_list (flashingCells crossBoard) \<lparr> row = 0, col = 0 \<rparr> = 1
   \<and> length (flashingCells crossBoard) = 15"
proof -
  have a: "length crossBoard = 8" by (simp add: crossBoard_def)
  have b: "\<forall>rw \<in> set crossBoard. length rw = 8" by (simp add: crossBoard_def)
  have m: "\<lparr> row = 0, col = 0 \<rparr> \<in> set (flashingCells crossBoard)" by code_simp
  have l: "length (flashingCells crossBoard) = 15" by code_simp
  show ?thesis
    using a b [folded list_all_iff] m l C6_flashing_cells [OF a b] by blast
qed

lemma gameOverEffect_idem: "gameOverEffect (gameOverEffect s) = gameOverEffect s"
  by (simp add: gameOverEffect_def)

lemma length_generateShapes: "length (generateShapes draw n) = n"
  by (simp add: generateShapes_def)

lemma cellAt_Null_row: "cellAt g i j = Null \<Longrightarrow> i < length g"
  by (simp add: cellAt_def split: if_splits)

lemma checkPlacement_rows:
  assumes "checkPlacement g sh anchorRow anchorCol" and "(r, c) \<in> set (blocks sh)"
  shows "nat (anchorRow + r) < length g"
  using assms by (auto simp: checkPlacement_def list_all_iff Let_def dest: cellAt_Null_row)

lemma placeBlocks_total:
  "(\<And>r c. (r, c) \<in> set bs \<Longrightarrow> nat (rowIndex + r) < length g)
   \<Longrightarrow> \<exists>g'. placeBlocks tag rowIndex colIndex bs g = Inr g' \<and> length g' = length g"
proof (induction bs arbitrary: g)
  case Nil
  show ?case by simp
next
  case (Cons b bs)
  obtain r c where b: "b = (r, c)" by (cases b)
  have here: "nat (rowIndex + r) < length g" using Cons.prems [of r c] b by simp
  have rest: "\<And>r c g'. (r, c) \<in> set bs \<Longrightarrow> length g' = length g \<Longrightarrow> nat (rowIndex + r) < length g'"
    using Cons.prems by (metis list.set_intros(2))
  show ?case
  proof (cases "rowIndex + r \<ge> 0 \<and> rowIndex + r < GRID_SIZE \<and> colIndex + c \<ge> 0 \<and> colIndex + c < GRID_SIZE")
    case True
    let ?g1 = "g[nat (rowIndex + r) := arraySet (g ! nat (rowIndex + r)) (colIndex + c) (Str tag)]"
    have "\<exists>g'. placeBlocks tag rowIndex colIndex bs ?g1 = Inr g' \<and> length g' = length ?g1"
      by (rule Cons.IH) (simp add: rest)
    then show ?thesis using True here b by (simp add: Let_def)
  next
    case False
    have "\<exists>g'. placeBlocks tag rowIndex colIndex bs g = Inr g' \<and> length g' = length g"
      by (rule Cons.IH) (simp add: rest)
    then show ?thesis using False b by (auto simp: Let_def)
  qed
qed

text \<open>The state after an accepted placement, given the grid the placement loop produced.\<close>

lemma handlePlaceShape_accepted:
  assumes "selectedShape s = Some sel" and "\<not> gameOver s" and "sel < length (availableShapes s)"
    and "checkPlacement (grid s) (availableShapes s ! sel) rowIndex colIndex"
  shows "\<exists>newGrid.
           placeBlocks (color (availableShapes s ! sel)) rowIndex colIndex
             (blocks (availableShapes s ! sel)) (grid s) = Inr newGrid
           \<and> handlePlaceShape draw rowIndex colIndex s =
               Inr (s\<lparr> grid := updatedGrid (clearLines newGrid),
                       score := score s + totalPointsScored
                         (turnScore (int (length (blocks (availableShapes s ! sel))))
                            (clearedLines (clearLines newGrid)) (streak s)),
                       streak := newStreak
                         (turnScore (int (length (blocks (availableShapes s ! sel))))
                            (clearedLines (clearLines newGrid)) (streak s)),
                       availableShapes :=
                         (if length (spliceOne (availableShapes s) sel) = 0
                          then generateShapes draw 3 else spliceOne (availableShapes s) sel),
                       selectedShape := None \<rparr>)"
proof -
  obtain newGrid where ng:
    "placeBlocks (color (availableShapes s ! sel)) rowIndex colIndex
       (blocks (availableShapes s ! sel)) (grid s) = Inr newGrid"
    using placeBlocks_total [of "blocks (availableShapes s ! sel)" rowIndex "grid s"
        "color (availableShapes s ! sel)" colIndex]
      checkPlacement_rows [OF assms(4)] by blast
  show ?thesis
    using assms ng by (simp add: handlePlaceShape_def Let_def)
qed

lemma handlePlaceShape_rejected:
  assumes "selectedShape s = None \<or> gameOver s
           \<or> (\<exists>sel. selectedShape s = Some sel \<and> sel < length (availableShapes s)
                 \<and> \<not> checkPlacement (grid s) (availableShapes s ! sel) rowIndex colIndex)"
  shows "handlePlaceShape draw rowIndex colIndex s = Inr s"
  using assms by (auto simp: handlePlaceShape_def Let_def split: option.splits)

text \<open>Every normal return of the handler is either the unchanged state or an accepted placement.\<close>

lemma handlePlaceShape_Inr:
  assumes "handlePlaceShape draw rowIndex colIndex s = Inr s'"
  shows "s' = s
         \<or> (\<exists>sel. selectedShape s = Some sel \<and> \<not> gameOver s \<and> sel < length (availableShapes s)
               \<and> checkPlacement (grid s) (availableShapes s ! sel) rowIndex colIndex)"
  using assms by (auto simp: handlePlaceShape_def Let_def split: option.splits if_splits)

lemma turnScore_nonneg:
  assumes "0 \<le> b" and "0 \<le> st"
  shows "0 \<le> totalPointsScored (turnScore b c st) \<and> 0 \<le> newStreak (turnScore b c st)"
proof (cases "c > 0")
  case True
  have "0 \<le> c * (100 + st * 10)" using True assms(2) by (intro mult_nonneg_nonneg) auto
  then show ?thesis using True assms by (simp add: turnScore_def Let_def)
next
  case False
  then show ?thesis using assms by (simp add: turnScore_def Let_def)
qed

lemma handlePlaceShape_score:
  assumes "handlePlaceShape draw rowIndex colIndex s = Inr s'" and "0 \<le> streak s"
  shows "score s \<le> score s' \<and> 0 \<le> streak s'"
proof -
  from handlePlaceShape_Inr [OF assms(1)] show ?thesis
  proof
    assume "s' = s"
    then show ?thesis using assms(2) by simp
  next
    assume "\<exists>sel. selectedShape s = Some sel \<and> \<not> gameOver s \<and> sel < length (availableShapes s)
               \<and> checkPlacement (grid s) (availableShapes s ! sel) rowIndex colIndex"
    then obtain sel where a: "selectedShape s = Some sel" "\<not> gameOver s"
      "sel < length (availableShapes s)"
      "checkPlacement (grid s) (availableShapes s ! sel) rowIndex colIndex" by blast
    from handlePlaceShape_accepted [OF a, of draw] assms(1)
    obtain newGrid where s': "s' = s\<lparr> grid := updatedGrid (clearLines newGrid),
                       score := score s + totalPointsScored
                         (turnScore (int (length (blocks (availableShapes s ! sel))))
                            (clearedLines (clearLines newGrid)) (streak s)),
                       streak := newStreak
                         (turnScore (int (length (blocks (availableShapes s ! sel))))
                            (clearedLines (clearLines newGrid)) (streak s)),
                       availableShapes :=
                         (if length (spliceOne (availableShapes s) sel) = 0
                          then generateShapes draw 3 else spliceOne (availableShapes s) sel),
                       selectedShape := None \<rparr>" by auto
    have "0 \<le> int (length (blocks (availableShapes s ! sel)))" by simp
    from turnScore_nonneg [OF this assms(2)] show ?thesis
      unfolding s' by simp
  qed
qed

lemma gameOverEffect_fields:
  "score (gameOverEffect s) = score s" "streak (gameOverEffect s) = streak s"
  "availableShapes (gameOverEffect s) = availableShapes s" "grid (gameOverEffect s) = grid s"
  by (simp_all add: gameOverEffect_def)

lemma step_inv:
  assumes "0 \<le> score s" and "0 \<le> streak s"
  shows "0 \<le> score (step e s) \<and> 0 \<le> streak (step e s) \<and> (\<not> isReset e \<longrightarrow> score s \<le> score (step e s))"
proof (cases e)
  case (PlaceShape r c d)
  show ?thesis
  proof (cases "handlePlaceShape d r c s")
    case (Inl err)
    then show ?thesis using assms PlaceShape by (simp add: step_def gameOverEffect_fields)
  next
    case (Inr s')
    from handlePlaceShape_score [OF Inr assms(2)] show ?thesis
      using assms PlaceShape Inr by (simp add: step_def gameOverEffect_fields)
  qed
qed (use assms in \<open>simp_all add: step_def gameOverEffect_fields handleShapeSelect_def
       resetGame_def clearHighScore_def\<close>)

lemma run_inv:
  assumes "0 \<le> score s" and "0 \<le> streak s"
  shows "0 \<le> score (run es s) \<and> 0 \<le> streak (run es s)"
  using assms
proof (induction es arbitrary: s)
  case Nil
  then show ?case by (simp add: run_def)
next
  case (Cons e es)
  from step_inv [OF Cons.prems, of e] have "0 \<le> score (step e s)" "0 \<le> streak (step e s)" by auto
  from Cons.IH [OF this] show ?case by (simp add: run_def)
qed

lemma run_mono:
  assumes "0 \<le> score s" and "0 \<le> streak s" and "\<forall>e \<in> set es. \<not> isReset e"
  shows "score s \<le> score (run es s)"
  using assms
proof (induction es arbitrary: s)
  case Nil
  then show ?case by (simp add: run_def)
next
  case (Cons e es)
  from step_inv [OF Cons.prems(1,2), of e] Cons.prems(3)
  have st: "0 \<le> score (step e s)" "0 \<le> streak (step e s)" "score s \<le> score (step e s)" by auto
  from Cons.IH [OF st(1,2)] Cons.prems(3) have "score (step e s) \<le> score (run es (step e s))" by simp
  with st(3) show ?case by (simp add: run_def)
qed

text \<open>
  C4. A click that is rejected (no shape selected, or the game is over, or the selected
  piece does not fit at the anchor) leaves the whole game state as it was: the handler
  returns the state it was given.
\<close>

theorem C4_rejected_click_noop:
  assumes "selectedShape s = None \<or> gameOver s
           \<or> (\<exists>sel. selectedShape s = Some sel \<and> sel < length (availableShapes s)
                 \<and> \<not> checkPlacement (grid s) (availableShapes s ! sel) rowIndex colIndex)"
  shows "handlePlaceShape draw rowIndex colIndex s = Inr s
         \<and> handleEvent (PlaceShape rowIndex colIndex draw) s = s"
  using handlePlaceShape_rejected [OF assms, of draw] by simp

theorem C4_rejected_click_noop_witness:
  "selectedShape startGame = None
   \<and> handlePlaceShape dots 0 0 startGame = Inr startGame
   \<and> gameOver (occupiedGame\<lparr> gameOver := True \<rparr>)
   \<and> handlePlaceShape dots 3 3 (occupiedGame\<lparr> gameOver := True \<rparr>)
       = Inr (occupiedGame\<lparr> gameOver := True \<rparr>)
   \<and> selectedShape occupiedGame = Some 0
   \<and> \<not> checkPlacement (grid occupiedGame) (availableShapes occupiedGame ! 0) 0 0
   \<and> handlePlaceShape dots 0 0 occupiedGame = Inr occupiedGame"
proof -
  have a: "selectedShape startGame = None" by (simp add: startGame_def initialGame_def)
  have b: "gameOver (occupiedGame\<lparr> gameOver := True \<rparr>)" by simp
  have c: "selectedShape occupiedGame = Some 0" "0 < length (availableShapes occupiedGame)"
    by (simp_all add: occupiedGame_def)
  have d: "\<not> checkPlacement (grid occupiedGame) (availableShapes occupiedGame ! 0) 0 0"
    by (simp add: occupiedGame_def checkPlacement_def dot_def cellAt_def rowGet_def)
  show ?thesis
    using a b c d
      C4_rejected_click_noop [of startGame 0 0 dots, OF disjI1, OF a]
      C4_rejected_click_noop [of "occupiedGame\<lparr> gameOver := True \<rparr>" 3 3 dots, OF disjI2, OF disjI1, OF b]
      C4_rejected_click_noop [of occupiedGame 0 0 dots]
    by blast
qed

text \<open>
  C5. An accepted placement removes exactly the selected piece and keeps the others in
  order; when that leaves no piece, the set becomes the three shapes of one fresh batch;
  so the new size is the old size minus one, or 3.
\<close>

theorem C5_piece_consumed:
  assumes "selectedShape s = Some sel" and "\<not> gameOver s" and "sel < length (availableShapes s)"
    and "checkPlacement (grid s) (availableShapes s ! sel) rowIndex colIndex"
  shows "\<exists>s'. handlePlaceShape draw rowIndex colIndex s = Inr s'
           \<and> availableShapes s' =
               (if take sel (availableShapes s) @ drop (Suc sel) (availableShapes s) = []
                then [draw 0, draw 1, draw 2]
                else take sel (availableShapes s) @ drop (Suc sel) (availableShapes s))
           \<and> generateShapes draw 3 = [draw 0, draw 1, draw 2]
           \<and> (length (availableShapes s') = length (availableShapes s) - 1
                \<or> length (availableShapes s') = 3)"
proof -
  have gen: "generateShapes draw 3 = [draw 0, draw 1, draw 2]"
    by (simp add: generateShapes_def upt_rec numeral_3_eq_3 numeral_2_eq_2)
  have len: "length (take sel (availableShapes s) @ drop (Suc sel) (availableShapes s))
               = length (availableShapes s) - 1"
    using assms(3) by simp
  from handlePlaceShape_accepted [OF assms, of draw]
  obtain s' where s': "handlePlaceShape draw rowIndex colIndex s = Inr s'"
    and av: "availableShapes s' =
               (if length (spliceOne (availableShapes s) sel) = 0
                then generateShapes draw 3 else spliceOne (availableShapes s) sel)"
    by auto
  define rest where "rest = take sel (availableShapes s) @ drop (Suc sel) (availableShapes s)"
  have av': "availableShapes s' = (if rest = [] then [draw 0, draw 1, draw 2] else rest)"
    unfolding av gen spliceOne_def rest_def length_0_conv ..
  have len': "length rest = length (availableShapes s) - 1"
    using len by (simp only: rest_def)
  have "length (availableShapes s') = length (availableShapes s) - 1
          \<or> length (availableShapes s') = 3"
  proof (cases "rest = []")
    case True
    then show ?thesis by (simp add: av')
  next
    case False
    then show ?thesis using len' by (simp add: av')
  qed
  with s' av' gen show ?thesis
    unfolding rest_def by blast
qed

theorem C5_piece_consumed_witness:
  "selectedShape occupiedGame = Some 0 \<and> \<not> gameOver occupiedGame
   \<and> checkPlacement (grid occupiedGame) (availableShapes occupiedGame ! 0) 0 1
   \<and> (\<exists>s'. handlePlaceShape dominoes 0 1 occupiedGame = Inr s' \<and> availableShapes s' = [dot])
   \<and> checkPlacement (grid lastPieceGame) (availableShapes lastPieceGame ! 0) 0 0
   \<and> (\<exists>s'. handlePlaceShape dominoes 0 0 lastPieceGame = Inr s'
          \<and> availableShapes s' = [domino, domino, domino])"
proof -
  have a: "selectedShape occupiedGame = Some 0" "\<not> gameOver occupiedGame"
    "0 < length (availableShapes occupiedGame)"
    by (simp_all add: occupiedGame_def)
  have b: "checkPlacement (grid occupiedGame) (availableShapes occupiedGame ! 0) 0 1"
    by (simp add: occupiedGame_def checkPlacement_def dot_def cellAt_def rowGet_def)
  have c: "selectedShape lastPieceGame = Some 0" "\<not> gameOver lastPieceGame"
    "0 < length (availableShapes lastPieceGame)"
    by (simp_all add: lastPieceGame_def)
  have d: "checkPlacement (grid lastPieceGame) (availableShapes lastPieceGame ! 0) 0 0"
    by (simp add: lastPieceGame_def checkPlacement_def dot_def cellAt_def rowGet_def
        checkerBoard_def upt_rec)
  have e: "availableShapes occupiedGame = [dot, dot]" "availableShapes lastPieceGame = [dot]"
    by (simp_all add: occupiedGame_def lastPieceGame_def)
  have f: "\<exists>s'. handlePlaceShape dominoes 0 1 occupiedGame = Inr s' \<and> availableShapes s' = [dot]"
    using C5_piece_consumed [OF a b, of dominoes] by (auto simp: e)
  have g: "\<exists>s'. handlePlaceShape dominoes 0 0 lastPieceGame = Inr s'
                \<and> availableShapes s' = [domino, domino, domino]"
    using C5_piece_consumed [OF c d, of dominoes] by (auto simp: e dominoes_def)
  show ?thesis
    using a(1,2) b d f g by simp
qed

lemma handlePlaceShape_highScore:
  "handlePlaceShape draw rowIndex colIndex s = Inr s' \<Longrightarrow> highScore s' = highScore s"
  by (auto simp: handlePlaceShape_def Let_def split: option.splits if_splits sum.splits)

lemma handlePlaceShape_gameOver:
  "handlePlaceShape draw rowIndex colIndex s = Inr s' \<Longrightarrow> gameOver s' = gameOver s"
  by (auto simp: handlePlaceShape_def Let_def split: option.splits if_splits sum.splits)

lemma handlePlaceShape_nonempty:
  assumes "handlePlaceShape draw rowIndex colIndex s = Inr s'" and "availableShapes s \<noteq> []"
  shows "availableShapes s' \<noteq> []"
proof -
  have "generateShapes draw 3 \<noteq> []"
    using length_generateShapes [of draw 3] by (metis length_0_conv zero_neq_numeral)
  then show ?thesis
    using assms
    by (auto simp: handlePlaceShape_def Let_def split: option.splits if_splits sum.splits)
qed

lemma gameOverEffect_highScore:
  "highScore (gameOverEffect s) =
     (if \<not> gameOver s \<and> gameOver (gameOverEffect s) \<and> highScore s < score s
      then score s else highScore s)"
  by (simp add: gameOverEffect_def)

lemma handleEvent_highScore:
  "e \<noteq> ClearHighScore \<Longrightarrow> highScore (handleEvent e s) = highScore s"
  by (cases e)
    (auto simp: handleShapeSelect_def resetGame_def handlePlaceShape_highScore split: sum.splits)

lemma gameOverEffect_fires:
  assumes "\<not> gameOver s" and "gameOver (gameOverEffect s)"
  shows "availableShapes s \<noteq> [] \<and> checkGameOver (grid s) (availableShapes s)"
  using assms by (auto simp: gameOverEffect_def split: if_splits)

lemma step_nonempty:
  assumes "availableShapes s \<noteq> []"
  shows "availableShapes (step e s) \<noteq> []"
proof -
  have "generateShapes d 3 \<noteq> []" for d
    using length_generateShapes [of d 3] by (metis length_0_conv zero_neq_numeral)
  then have "availableShapes (handleEvent e s) \<noteq> []"
    using assms
    by (cases e)
      (auto simp: handleShapeSelect_def resetGame_def clearHighScore_def
         dest: handlePlaceShape_nonempty split: sum.splits)
  then show ?thesis by (simp add: step_def gameOverEffect_fields)
qed

lemma run_nonempty:
  "availableShapes s \<noteq> [] \<Longrightarrow> availableShapes (run es s) \<noteq> []"
proof (induction es arbitrary: s)
  case Nil
  then show ?case by (simp add: run_def)
next
  case (Cons e es)
  from Cons.IH [OF step_nonempty [OF Cons.prems, of e]] show ?case by (simp add: run_def)
qed

lemma initialGame_fields:
  "score (initialGame d saved) = 0" "streak (initialGame d saved) = 0"
  "availableShapes (initialGame d saved) = generateShapes d 3"
  by (simp_all add: initialGame_def)

text \<open>
  C7. Among the gameplay steps only the game-over effect writes the high score, and it
  does so only when it switches the game from playing to over while the score is
  strictly above the stored high score; the new high score is then the score. The
  place-shape handler, the reset and the selection leave it as it is.
\<close>

theorem C7_high_score_update:
  "highScore (gameOverEffect s) =
     (if \<not> gameOver s \<and> gameOver (gameOverEffect s) \<and> highScore s < score s
      then score s else highScore s)
   \<and> (\<forall>s'. handlePlaceShape draw rowIndex colIndex s = Inr s' \<longrightarrow> highScore s' = highScore s)
   \<and> highScore (resetGame draw s) = highScore s
   \<and> highScore (handleShapeSelect i s) = highScore s
   \<and> (e \<noteq> ClearHighScore \<longrightarrow>
        highScore (step e s) =
          (if \<not> gameOver (handleEvent e s) \<and> gameOver (step e s) \<and> highScore s < score (step e s)
           then score (step e s) else highScore s))"
proof -
  have "highScore (step e s) =
          (if \<not> gameOver (handleEvent e s) \<and> gameOver (step e s) \<and> highScore s < score (step e s)
           then score (step e s) else highScore s)" if "e \<noteq> ClearHighScore"
    unfolding step_def gameOverEffect_highScore [of "handleEvent e s"] gameOverEffect_fields
      handleEvent_highScore [OF that] ..
  then show ?thesis
    using gameOverEffect_highScore [of s] handlePlaceShape_highScore [of draw rowIndex colIndex s]
    by (simp add: resetGame_def handleShapeSelect_def)
qed

theorem C7_high_score_update_witness:
  "\<not> gameOver (handleEvent (PlaceShape 0 0 dominoes) lastPieceGame)
   \<and> gameOver (step (PlaceShape 0 0 dominoes) lastPieceGame)
   \<and> highScore lastPieceGame = 20
   \<and> highScore (step (PlaceShape 0 0 dominoes) lastPieceGame) = 60
   \<and> \<not> gameOver (step (PlaceShape 0 1 dots) occupiedGame)
   \<and> highScore (step (PlaceShape 0 1 dots) occupiedGame) = highScore occupiedGame"
proof -
  have a: "\<not> gameOver (handleEvent (PlaceShape 0 0 dominoes) lastPieceGame)" by code_simp
  have b: "gameOver (step (PlaceShape 0 0 dominoes) lastPieceGame)" by code_simp
  have c: "score (step (PlaceShape 0 0 dominoes) lastPieceGame) = 60" by code_simp
  have d: "highScore lastPieceGame = 20" by (simp add: lastPieceGame_def)
  have e: "\<not> gameOver (step (PlaceShape 0 1 dots) occupiedGame)" by code_simp
  show ?thesis
    using a b c d e
      C7_high_score_update [of lastPieceGame dominoes 0 0 0 "PlaceShape 0 0 dominoes"]
      C7_high_score_update [of occupiedGame dots 0 1 0 "PlaceShape 0 1 dots"]
    by simp
qed

text \<open>
  C8. In every state a game can reach the score is non-negative; a placement never lowers
  it (the points it adds are at least 0), so no sequence of steps without a reset lowers
  it; a reset sets it to 0.
\<close>

theorem C8_score_monotone:
  "0 \<le> score (run es (initialGame d0 saved))
   \<and> (\<forall>d r c s'. handlePlaceShape d r c (run es (initialGame d0 saved)) = Inr s'
          \<longrightarrow> score (run es (initialGame d0 saved)) \<le> score s')
   \<and> ((\<forall>e \<in> set es'. \<not> isReset e)
          \<longrightarrow> score (run es (initialGame d0 saved)) \<le> score (run es' (run es (initialGame d0 saved))))
   \<and> score (resetGame d1 (run es (initialGame d0 saved))) = 0"
proof -
  define s where "s = run es (initialGame d0 saved)"
  have inv: "0 \<le> score s" "0 \<le> streak s"
    using run_inv [of "initialGame d0 saved" es] by (simp_all add: s_def initialGame_fields)
  have p: "\<forall>d r c s'. handlePlaceShape d r c s = Inr s' \<longrightarrow> score s \<le> score s'"
    using handlePlaceShape_score inv(2) by blast
  have m: "(\<forall>e \<in> set es'. \<not> isReset e) \<longrightarrow> score s \<le> score (run es' s)"
    using run_mono [OF inv] by blast
  have z: "score (resetGame d1 s) = 0" by (simp add: resetGame_def)
  show ?thesis
    using inv(1) p m z unfolding s_def by blast
qed

theorem C8_score_monotone_witness:
  "score (run [SelectShape 0, PlaceShape 0 0 dots] (initialGame dots None)) = 10
   \<and> list_all (\<lambda>e. \<not> isReset e) [SelectShape 0, PlaceShape 0 1 dots]
   \<and> score (run [SelectShape 0, PlaceShape 0 1 dots]
               (run [SelectShape 0, PlaceShape 0 0 dots] (initialGame dots None))) = 20
   \<and> 10 \<le> score (run [SelectShape 0, PlaceShape 0 1 dots]
               (run [SelectShape 0, PlaceShape 0 0 dots] (initialGame dots None)))
   \<and> score (resetGame dots (run [SelectShape 0, PlaceShape 0 0 dots] (initialGame dots None))) = 0"
proof -
  have a: "score (run [SelectShape 0, PlaceShape 0 0 dots] (initialGame dots None)) = 10"
    by code_simp
  have b: "score (run [SelectShape 0, PlaceShape 0 1 dots]
               (run [SelectShape 0, PlaceShape 0 0 dots] (initialGame dots None))) = 20"
    by code_simp
  have c: "\<forall>e \<in> set [SelectShape 0, PlaceShape 0 1 dots]. \<not> isReset e" by simp
  show ?thesis
    using a b c [folded list_all_iff]
      C8_score_monotone [of "[SelectShape 0, PlaceShape 0 0 dots]" dots None
        "[SelectShape 0, PlaceShape 0 1 dots]" dots]
    by simp
qed

text \<open>
  C9. The game-over effect ends the game only when there is at least one available piece
  and no available piece fits. No reachable state has an empty piece set: when a
  placement consumes the last piece, the state the effect sees already holds the fresh
  batch of 3, and the game ends exactly when none of those 3 fits.
\<close>

theorem C9_game_over_needs_pieces:
  "(\<not> gameOver s \<and> gameOver (gameOverEffect s)
      \<longrightarrow> availableShapes s \<noteq> [] \<and> checkGameOver (grid s) (availableShapes s))
   \<and> (\<not> gameOver (handleEvent e s) \<and> gameOver (step e s)
      \<longrightarrow> availableShapes (step e s) \<noteq> []
          \<and> checkGameOver (grid (step e s)) (availableShapes (step e s)))
   \<and> (selectedShape s = Some sel \<and> \<not> gameOver s \<and> sel < length (availableShapes s)
        \<and> checkPlacement (grid s) (availableShapes s ! sel) rowIndex colIndex
        \<and> length (availableShapes s) = 1
      \<longrightarrow> availableShapes (step (PlaceShape rowIndex colIndex draw) s) = generateShapes draw 3
          \<and> length (availableShapes (step (PlaceShape rowIndex colIndex draw) s)) = 3
          \<and> gameOver (step (PlaceShape rowIndex colIndex draw) s)
              = checkGameOver (grid (step (PlaceShape rowIndex colIndex draw) s))
                  (generateShapes draw 3))
   \<and> availableShapes (run es (initialGame d0 saved)) \<noteq> []"
proof -
  have p1: "\<not> gameOver s \<and> gameOver (gameOverEffect s)
      \<longrightarrow> availableShapes s \<noteq> [] \<and> checkGameOver (grid s) (availableShapes s)"
    using gameOverEffect_fires by blast
  have p2: "\<not> gameOver (handleEvent e s) \<and> gameOver (step e s)
      \<longrightarrow> availableShapes (step e s) \<noteq> []
          \<and> checkGameOver (grid (step e s)) (availableShapes (step e s))"
    using gameOverEffect_fires [of "handleEvent e s"]
    by (simp add: step_def gameOverEffect_fields)
  have p3: "availableShapes (step (PlaceShape rowIndex colIndex draw) s) = generateShapes draw 3
          \<and> length (availableShapes (step (PlaceShape rowIndex colIndex draw) s)) = 3
          \<and> gameOver (step (PlaceShape rowIndex colIndex draw) s)
              = checkGameOver (grid (step (PlaceShape rowIndex colIndex draw) s))
                  (generateShapes draw 3)"
    if a: "selectedShape s = Some sel" "\<not> gameOver s" "sel < length (availableShapes s)"
      "checkPlacement (grid s) (availableShapes s ! sel) rowIndex colIndex"
      and one: "length (availableShapes s) = 1"
  proof -
    have sp: "spliceOne (availableShapes s) sel = []"
      using one a(3) by (simp add: spliceOne_def)
    from handlePlaceShape_accepted [OF a, of draw]
    obtain s' where s': "handlePlaceShape draw rowIndex colIndex s = Inr s'"
      and av: "availableShapes s' = generateShapes draw 3" and go: "\<not> gameOver s'"
      using sp a(2) by auto
    have st: "step (PlaceShape rowIndex colIndex draw) s = gameOverEffect s'"
      using s' by (simp add: step_def)
    have len: "length (availableShapes s') = 3" by (simp add: av length_generateShapes)
    show ?thesis
      unfolding st gameOverEffect_fields
      using av go len by (simp add: gameOverEffect_def)
  qed
  have p4: "availableShapes (run es (initialGame d0 saved)) \<noteq> []"
  proof (rule run_nonempty)
    show "availableShapes (initialGame d0 saved) \<noteq> []"
      using length_generateShapes [of d0 3]
      by (metis initialGame_fields(3) length_0_conv zero_neq_numeral)
  qed
  show ?thesis using p1 p2 p3 p4 by blast
qed

theorem C9_game_over_needs_pieces_witness:
  "\<not> gameOver lastPieceGame
   \<and> length (availableShapes lastPieceGame) = 1
   \<and> checkPlacement (grid lastPieceGame) (availableShapes lastPieceGame ! 0) 0 0
   \<and> availableShapes (step (PlaceShape 0 0 dominoes) lastPieceGame) = [domino, domino, domino]
   \<and> gameOver (step (PlaceShape 0 0 dominoes) lastPieceGame)
   \<and> checkGameOver (grid (step (PlaceShape 0 0 dominoes) lastPieceGame)) [domino, domino, domino]"
proof -
  have c: "selectedShape lastPieceGame = Some 0" "\<not> gameOver lastPieceGame"
    "0 < length (availableShapes lastPieceGame)" "length (availableShapes lastPieceGame) = 1"
    by (simp_all add: lastPieceGame_def)
  have d: "checkPlacement (grid lastPieceGame) (availableShapes lastPieceGame ! 0) 0 0"
    by (simp add: lastPieceGame_def checkPlacement_def dot_def cellAt_def rowGet_def
        checkerBoard_def upt_rec)
  have g: "generateShapes dominoes 3 = [domino, domino, domino]"
    by (simp add: generateShapes_def upt_rec numeral_3_eq_3 dominoes_def)
  have b: "gameOver (step (PlaceShape 0 0 dominoes) lastPieceGame)" by code_simp
  show ?thesis
    using c d b C9_game_over_needs_pieces [of lastPieceGame "PlaceShape 0 0 dominoes" 0 0 0 dominoes]
    by (simp add: g)
qed

lemma arraySet_length:
  "0 \<le> j \<Longrightarrow> j < int (length xs) \<Longrightarrow> length (arraySet xs j v) = length xs"
  by (simp add: arraySet_def)

lemma assignCell_ok:
  assumes "0 \<le> i" and "i < int (length (gridStore h g))"
  shows "assignCell h g i j v =
           Inr (h\<lparr> rowStore := (rowStore h)(gridStore h g ! nat i :=
                     arraySet (rowStore h (gridStore h g ! nat i)) j v) \<rparr>)"
  using assms by (simp add: assignCell_def Let_def)

text \<open>
  On a grid of eight rows the loop never throws, every assignment it makes is inside the
  grid, the outer arrays are untouched, and no row of length 8 changes its length.
\<close>

lemma placeLoop_writes:
  assumes "length (gridStore h newGrid) = 8"
  shows "\<exists>h' written'.
           placeLoop newGrid tag rowIndex colIndex bs (h, written) = Inr (h', written')
           \<and> gridStore h' = gridStore h
           \<and> set written' \<subseteq> set written \<union> {(i, j). 0 \<le> i \<and> i < 8 \<and> 0 \<le> j \<and> j < 8}
           \<and> (\<forall>a. length (rowStore h a) = 8 \<longrightarrow> length (rowStore h' a) = 8)"
  using assms
proof (induction bs arbitrary: h written)
  case Nil
  show ?case by simp
next
  case (Cons b bs)
  obtain r c where b: "b = (r, c)" by (cases b)
  show ?case
  proof (cases "rowIndex + r \<ge> 0 \<and> rowIndex + r < GRID_SIZE \<and> colIndex + c \<ge> 0 \<and> colIndex + c < GRID_SIZE")
    case True
    then have inb: "0 \<le> rowIndex + r" "rowIndex + r < 8" "0 \<le> colIndex + c" "colIndex + c < 8"
      by (simp_all add: GRID_SIZE_def)
    let ?a = "gridStore h newGrid ! nat (rowIndex + r)"
    let ?h1 = "h\<lparr> rowStore := (rowStore h)(?a := arraySet (rowStore h ?a) (colIndex + c) (Str tag)) \<rparr>"
    have asg: "assignCell h newGrid (rowIndex + r) (colIndex + c) (Str tag) = Inr ?h1"
      using assignCell_ok [of "rowIndex + r" h newGrid] inb Cons.prems by simp
    have len1: "length (gridStore ?h1 newGrid) = 8" using Cons.prems by simp
    from Cons.IH [OF len1, of "written @ [(rowIndex + r, colIndex + c)]"]
    obtain h' written' where rec:
      "placeLoop newGrid tag rowIndex colIndex bs (?h1, written @ [(rowIndex + r, colIndex + c)])
         = Inr (h', written')"
      "gridStore h' = gridStore ?h1"
      "set written' \<subseteq> set (written @ [(rowIndex + r, colIndex + c)])
                        \<union> {(i, j). 0 \<le> i \<and> i < 8 \<and> 0 \<le> j \<and> j < 8}"
      "\<forall>a. length (rowStore ?h1 a) = 8 \<longrightarrow> length (rowStore h' a) = 8"
      by blast
    have keep: "length (rowStore ?h1 a) = 8" if "length (rowStore h a) = 8" for a
    proof (cases "a = ?a")
      case True
      then have "length (rowStore h ?a) = 8" using that by simp
      then have "length (arraySet (rowStore h ?a) (colIndex + c) (Str tag)) = 8"
        using inb arraySet_length [of "colIndex + c" "rowStore h ?a" "Str tag"] by simp
      then show ?thesis using True by simp
    next
      case False
      then show ?thesis using that by simp
    qed
    have "placeLoop newGrid tag rowIndex colIndex (b # bs) (h, written) = Inr (h', written')"
      using True asg rec(1) b by (simp add: Let_def)
    moreover have "gridStore h' = gridStore h" using rec(2) by simp
    moreover have "set written' \<subseteq> set written \<union> {(i, j). 0 \<le> i \<and> i < 8 \<and> 0 \<le> j \<and> j < 8}"
      using rec(3) inb by auto
    moreover have "\<forall>a. length (rowStore h a) = 8 \<longrightarrow> length (rowStore h' a) = 8"
      using rec(4) keep by blast
    ultimately show ?thesis by blast
  next
    case False
    from Cons.IH [OF Cons.prems, of written]
    show ?thesis using False b by (auto simp: Let_def)
  qed
qed

text \<open>
  C10. Whatever the anchor and the shape, on a grid of eight rows the placement loop
  finishes without an exception and every assignment \<open>newGrid[newRow][newCol] = ...\<close> it
  makes has \<open>0 \<le> newRow < 8\<close> and \<open>0 \<le> newCol < 8\<close>; so no row of length 8 grows.
\<close>

theorem C10_writes_in_bounds:
  assumes "length (gridStore h g) = 8"
  shows "\<exists>h' newGrid written.
           placeOnHeap h g sh rowIndex colIndex = Inr (h', newGrid, written)
           \<and> (\<forall>(i, j) \<in> set written. 0 \<le> i \<and> i < 8 \<and> 0 \<le> j \<and> j < 8)
           \<and> (\<forall>a. length (rowStore h a) = 8 \<longrightarrow> length (rowStore h' a) = 8)"
proof -
  let ?h1 = "fst (spread h g)" and ?ng = "snd (spread h g)"
  have len: "length (gridStore ?h1 ?ng) = 8" using assms by (simp add: spread_def)
  have rows: "rowStore ?h1 = rowStore h" by (simp add: spread_def)
  from placeLoop_writes [OF len, of "color sh" rowIndex colIndex "blocks sh" "[]"]
  obtain h' written where loop:
    "placeLoop ?ng (color sh) rowIndex colIndex (blocks sh) (?h1, []) = Inr (h', written)"
    "set written \<subseteq> {(i, j). 0 \<le> i \<and> i < 8 \<and> 0 \<le> j \<and> j < 8}"
    "\<forall>a. length (rowStore ?h1 a) = 8 \<longrightarrow> length (rowStore h' a) = 8"
    by auto
  have "placeOnHeap h g sh rowIndex colIndex = Inr (h', ?ng, written)"
    using loop(1) by (simp add: placeOnHeap_def case_prod_beta)
  moreover have "\<forall>(i, j) \<in> set written. 0 \<le> i \<and> i < 8 \<and> 0 \<le> j \<and> j < 8"
    using loop(2) by auto
  moreover have "\<forall>a. length (rowStore h a) = 8 \<longrightarrow> length (rowStore h' a) = 8"
    using loop(3) rows by simp
  ultimately show ?thesis by blast
qed

theorem C10_writes_in_bounds_witness:
  "length (gridStore emptyHeap 0) = 8
   \<and> (\<exists>h' newGrid. placeOnHeap emptyHeap 0 domino 7 7 = Inr (h', newGrid, [(7, 7)]))"
proof -
  have a: "length (gridStore emptyHeap 0) = 8" by (simp add: emptyHeap_def)
  have b: "\<exists>h' newGrid. placeOnHeap emptyHeap 0 domino 7 7 = Inr (h', newGrid, written)
             \<Longrightarrow> written = [(7, 7)]" for written
    by (auto simp: placeOnHeap_def spread_def emptyHeap_def domino_def GRID_SIZE_def
        assignCell_def Let_def)
  from C10_writes_in_bounds [OF a, of domino 7 7]
  obtain h' newGrid written where
    c: "placeOnHeap emptyHeap 0 domino 7 7 = Inr (h', newGrid, written)" by blast
  with b have "written = [(7, 7)]" by blast
  with a c show ?thesis by blast
qed
lemma placeLoop_gridStore:
  "placeLoop newGrid tag rowIndex colIndex bs (h, written) = Inr (h', written')
   \<Longrightarrow> gridStore h' = gridStore h"
proof (induction bs arbitrary: h written)
  case Nil
  then show ?case by simp
next
  case (Cons b bs)
  obtain r c where b: "b = (r, c)" by (cases b)
  show ?case
  proof (cases "rowIndex + r \<ge> 0 \<and> rowIndex + r < GRID_SIZE \<and> colIndex + c \<ge> 0 \<and> colIndex + c < GRID_SIZE")
    case True
    with Cons.prems b obtain h1 where
      h1: "assignCell h newGrid (rowIndex + r) (colIndex + c) (Str tag) = Inr h1"
      and rec: "placeLoop newGrid tag rowIndex colIndex bs
                  (h1, written @ [(rowIndex + r, colIndex + c)]) = Inr (h', written')"
      by (auto simp: Let_def split: sum.splits)
    have "gridStore h1 = gridStore h"
      using h1 by (auto simp: assignCell_def Let_def split: if_splits)
    with Cons.IH [OF rec] show ?thesis by simp
  next
    case False
    with Cons.prems b have "placeLoop newGrid tag rowIndex colIndex bs (h, written) = Inr (h', written')"
      by (auto simp: Let_def)
    from Cons.IH [OF this] show ?thesis .
  qed
qed

text \<open>
  The copy is shallow: after the loop the input grid and \<open>newGrid\<close> are different outer
  arrays over the same row arrays, so they read as the same board.
\<close>

lemma placeOnHeap_shares_rows:
  assumes "placeOnHeap h g sh rowIndex colIndex = Inr (h', newGrid, written)" and "g < fresh h"
  shows "newGrid \<noteq> g \<and> gridStore h' newGrid = gridStore h' g
         \<and> readBoard h' g = readBoard h' newGrid"
proof -
  from assms(1) have ng: "newGrid = fresh h"
    and loop: "placeLoop (fresh h) (color sh) rowIndex colIndex (blocks sh)
                 (h\<lparr> gridStore := (gridStore h)(fresh h := gridStore h g), fresh := Suc (fresh h) \<rparr>, [])
               = Inr (h', written)"
    by (auto simp: placeOnHeap_def spread_def split: sum.splits)
  from placeLoop_gridStore [OF loop]
  have gs: "gridStore h' = (gridStore h)(fresh h := gridStore h g)" by simp
  have "newGrid \<noteq> g" using ng assms(2) by simp
  moreover have "gridStore h' newGrid = gridStore h' g" using ng gs assms(2) by simp
  ultimately show ?thesis by (simp add: readBoard_def)
qed

lemma map_fun_upd_distinct:
  assumes "distinct refs" and "i < length refs"
  shows "map (f(refs ! i := x)) refs = (map f refs)[i := x]"
proof (rule nth_equalityI)
  show "length (map (f(refs ! i := x)) refs) = length ((map f refs)[i := x])" by simp
next
  fix k assume "k < length (map (f(refs ! i := x)) refs)"
  then have k: "k < length refs" by simp
  show "map (f(refs ! i := x)) refs ! k = (map f refs)[i := x] ! k"
  proof (cases "k = i")
    case True
    then show ?thesis using k by simp
  next
    case False
    then have "refs ! k \<noteq> refs ! i"
      using assms k by (simp add: nth_eq_iff_index_eq)
    then show ?thesis using k False by simp
  qed
qed

text \<open>
  Read through \<open>newGrid\<close>, the loop on the heap computes what \<open>placeBlocks\<close> computes
  on the board value, as long as the rows of the grid are arrays of their own.
\<close>

lemma placeLoop_placeBlocks:
  assumes "distinct (gridStore h newGrid)"
  shows "map_sum id (\<lambda>st. readBoard (fst st) newGrid)
           (placeLoop newGrid tag rowIndex colIndex bs (h, written))
         = placeBlocks tag rowIndex colIndex bs (readBoard h newGrid)"
  using assms
proof (induction bs arbitrary: h written)
  case Nil
  show ?case by simp
next
  case (Cons b bs)
  obtain r c where b: "b = (r, c)" by (cases b)
  show ?case
  proof (cases "rowIndex + r \<ge> 0 \<and> rowIndex + r < GRID_SIZE \<and> colIndex + c \<ge> 0 \<and> colIndex + c < GRID_SIZE")
    case guard: True
    show ?thesis
    proof (cases "nat (rowIndex + r) < length (gridStore h newGrid)")
      case True
      let ?a = "gridStore h newGrid ! nat (rowIndex + r)"
      let ?h1 = "h\<lparr> rowStore := (rowStore h)(?a := arraySet (rowStore h ?a) (colIndex + c) (Str tag)) \<rparr>"
      have asg: "assignCell h newGrid (rowIndex + r) (colIndex + c) (Str tag) = Inr ?h1"
        using assignCell_ok [of "rowIndex + r" h newGrid] guard True by simp
      have rb: "readBoard ?h1 newGrid =
                  (readBoard h newGrid)[nat (rowIndex + r) :=
                     arraySet (readBoard h newGrid ! nat (rowIndex + r)) (colIndex + c) (Str tag)]"
        using map_fun_upd_distinct [OF Cons.prems True, of "rowStore h"] True
        by (simp add: readBoard_def)
      have d1: "distinct (gridStore ?h1 newGrid)" using Cons.prems by simp
      show ?thesis
        using guard True asg b Cons.IH [OF d1, of "written @ [(rowIndex + r, colIndex + c)]"]
        by (simp add: Let_def rb) (simp add: readBoard_def)
    next
      case False
      then have "assignCell h newGrid (rowIndex + r) (colIndex + c) (Str tag) = Inl TypeError"
        using guard by (auto simp: assignCell_def)
      then show ?thesis using guard False b by (simp add: Let_def readBoard_def)
    qed
  next
    case False
    then show ?thesis using b Cons.IH [OF Cons.prems, of written] by (auto simp: Let_def)
  qed
qed

text \<open>
  C1. Applying a valid placement gives a new board with the target cells set to the color
  tag and leaves the cells of the input board as they were. Evaluated on the empty board
  of a new game, one red block at (0, 0): the placement is valid, \<open>newGrid\<close> is a new
  outer array and holds the block, but the input board read afterwards holds it too,
  where its cell was \<open>null\<close> before.
\<close>

theorem C1_input_board_mutated:
  "checkPlacement (readBoard emptyHeap 0) dot 0 0
   \<and> readBoard emptyHeap 0 = emptyBoard
   \<and> (case placeOnHeap emptyHeap 0 dot 0 0 of
        Inl e \<Rightarrow> False
      | Inr (h', newGrid, written) \<Rightarrow>
          newGrid \<noteq> 0
          \<and> readBoard h' newGrid ! 0 ! 0 = Str ''red''
          \<and> readBoard h' 0 ! 0 ! 0 = Str ''red''
          \<and> readBoard h' 0 \<noteq> readBoard emptyHeap 0)"
proof -
  have rb: "readBoard emptyHeap 0 = emptyBoard"
    by code_simp
  have cp: "checkPlacement (readBoard emptyHeap 0) dot 0 0"
    unfolding rb by (simp add: checkPlacement_def dot_def emptyBoard_def cellAt_def rowGet_def)
  define h' where
    "h' = emptyHeap\<lparr> gridStore := (gridStore emptyHeap)(1 := [0, 1, 2, 3, 4, 5, 6, 7]),
                      fresh := 2,
                      rowStore := (rowStore emptyHeap)(0 := Str ''red'' # replicate 7 Null) \<rparr>"
  have run: "placeOnHeap emptyHeap 0 dot 0 0 = Inr (h', 1, [(0, 0)])"
    by (simp add: placeOnHeap_def spread_def emptyHeap_def dot_def GRID_SIZE_def
        assignCell_def arraySet_def Let_def h'_def numeral_eq_Suc)
  have new: "readBoard h' 1 ! 0 ! 0 = Str ''red''"
    by (simp add: readBoard_def h'_def emptyHeap_def)
  have old: "readBoard h' 0 ! 0 ! 0 = Str ''red''"
    by (simp add: readBoard_def h'_def emptyHeap_def)
  have before: "readBoard emptyHeap 0 ! 0 ! 0 = Null"
    by (simp add: readBoard_def emptyHeap_def)
  have "readBoard h' 0 \<noteq> readBoard emptyHeap 0"
    using old before by (metis jsval.distinct(5))
  then show ?thesis using rb cp run new old by simp
qed

end
